theory Spec2Isabelle
  imports Main
begin

text \<open>
  An embedding of the two TypeScript files of the repository: httpServer.ts, an
  HTTP/1.1 server on a promise-based wrapper of a TCP socket, and server.ts, the
  line-protocol echo server with its own buffer type. Functions keep their names;
  mutation is state passing; a thrown exception, a promise that rejects and a promise
  that never settles are values; the \<open>while\<close> loops that wait on the socket are partial
  functions. The claims C1 to C10 are stated and settled in the last section.
\<close>

section \<open>Buffers\<close>

text \<open>
  A Node \<open>Buffer\<close> is a fixed-length array of bytes; \<^typ>\<open>char\<close> is the 8-bit byte, so a
  buffer is a \<^typ>\<open>string\<close> and \<open>Buffer.from('abc')\<close> is the literal \<open>''abc''\<close> (every
  string literal of the two source files is ASCII). Lengths and indices are the
  non-negative integers the program computes; the primitives below clamp as Node does.
\<close>

type_synonym Buffer = string

text \<open>\<open>Buffer.alloc(n)\<close>: \<open>n\<close> zero bytes.\<close>

definition alloc :: "nat \<Rightarrow> Buffer" where
  "alloc n = replicate n (CHR 0x00)"

text \<open>
  \<open>b.subarray(s, e)\<close> (and \<open>b.slice(s, e)\<close>, which on a Buffer is the same view): the
  bytes from \<open>s\<close> up to \<open>e\<close>, both clamped to the length of \<open>b\<close>.
\<close>

definition subarray :: "Buffer \<Rightarrow> nat \<Rightarrow> nat \<Rightarrow> Buffer" where
  "subarray b s e = drop s (take e b)"

text \<open>
  \<open>src.copy(target, targetStart, 0)\<close>: writes the bytes of \<open>src\<close> into \<open>target\<close> from
  position \<open>targetStart\<close> on, as many as fit; the target keeps its length.
\<close>

definition copy :: "Buffer \<Rightarrow> Buffer \<Rightarrow> nat \<Rightarrow> Buffer" where
  "copy src target targetStart =
     (let n = min (length src) (length target - targetStart)
      in take targetStart target @ take n src @ drop (targetStart + n) target)"

text \<open>
  \<open>b.copyWithin(target, s, e)\<close>: copies the bytes \<open>s..e\<close> of \<open>b\<close> (clamped) to position
  \<open>target\<close> of the same array, as many as fit.
\<close>

definition copyWithin :: "Buffer \<Rightarrow> nat \<Rightarrow> nat \<Rightarrow> nat \<Rightarrow> Buffer" where
  "copyWithin b target s e =
     (let to = min target (length b); from = min s (length b); final = min e (length b);
          n = min (final - from) (length b - to)
      in take to b @ take n (drop from b) @ drop (to + n) b)"

text \<open>
  \<open>b.indexOf(pat)\<close>: the position of the first occurrence of the byte string \<open>pat\<close> in
  \<open>b\<close>, or \<open>-1\<close>. \<open>indexOfFrom\<close> carries the position of the suffix it scans.
\<close>

fun indexOfFrom :: "nat \<Rightarrow> Buffer \<Rightarrow> Buffer \<Rightarrow> int" where
  "indexOfFrom i [] pat = (if pat = [] then int i else - 1)"
| "indexOfFrom i (x # xs) pat =
     (if take (length pat) (x # xs) = pat then int i else indexOfFrom (Suc i) xs pat)"

definition indexOf :: "Buffer \<Rightarrow> Buffer \<Rightarrow> int" where
  "indexOf b pat = indexOfFrom 0 b pat"

section \<open>The dynamic buffer of httpServer.ts\<close>

text \<open>
  \<open>type DynBuf = {data: Buffer, length: number}\<close>. The field \<open>length\<close> is named
  \<open>length_buf\<close> here. It is a natural number: \<open>bufPop\<close> is the only place that subtracts
  from it, and both of its call sites pass at most \<open>buf.length\<close> (\<open>cutMessage\<close> passes the
  end of a delimiter found in the first \<open>buf.length\<close> bytes, the body reader passes
  \<open>Math.min(buf.length, remain)\<close>).
\<close>

record DynBuf =
  data :: Buffer
  length_buf :: nat

text \<open>The loop \<open>while (cap < newLen) cap *= 2\<close>. It is entered with
  \<open>cap = Math.max(buf.data.length, 32)\<close>, so \<open>cap\<close> is never 0; the guard \<open>0 < cap\<close>
  only makes the recursion total (see \<open>growCap_unfold\<close>).\<close>

function growCap :: "nat \<Rightarrow> nat \<Rightarrow> nat" where
  "growCap cap newLen = (if cap < newLen \<and> 0 < cap then growCap (cap * 2) newLen else cap)"
  by pat_completeness auto
termination
  by (relation "measure (\<lambda>(cap, newLen). newLen - cap)") auto

declare growCap.simps [simp del]

definition bufPush :: "DynBuf \<Rightarrow> Buffer \<Rightarrow> DynBuf" where
  "bufPush buf d =
     (let newLen = length_buf buf + length d;
          buf1 = (if length_buf buf < newLen
                  then (let cap = growCap (max (length (data buf)) 32) newLen;
                            grown = copy (data buf) (alloc cap) 0
                        in buf\<lparr>data := grown\<rparr>)
                  else buf)
      in buf1\<lparr>data := copy d (data buf1) (length_buf buf1), length_buf := newLen\<rparr>)"

definition bufPop :: "DynBuf \<Rightarrow> nat \<Rightarrow> DynBuf" where
  "bufPop buf len =
     buf\<lparr>data := copyWithin (data buf) 0 len (length_buf buf),
         length_buf := length_buf buf - len\<rparr>"

text \<open>The unread bytes: \<open>buf.data.subarray(0, buf.length)\<close>, as \<open>cutMessage\<close> and the body
  reader view them.\<close>

definition content :: "DynBuf \<Rightarrow> Buffer" where
  "content buf = subarray (data buf) 0 (length_buf buf)"

text \<open>The invariant of the data model: the logical length is within the backing array.\<close>

definition bufInv :: "DynBuf \<Rightarrow> bool" where
  "bufInv buf = (length_buf buf \<le> length (data buf))"

text \<open>The buffer \<open>{data: Buffer.alloc(0), length: 0}\<close> that \<open>serveClient\<close> starts with.\<close>

definition emptyBuf :: DynBuf where
  "emptyBuf = \<lparr>data = alloc 0, length_buf = 0\<rparr>"

text \<open>A sequence of appends and consumes, run from left to right.\<close>

datatype bufOp = Push Buffer | Pop nat

fun applyOp :: "DynBuf \<Rightarrow> bufOp \<Rightarrow> DynBuf" where
  "applyOp buf (Push d) = bufPush buf d"
| "applyOp buf (Pop n) = bufPop buf n"

fun runOps :: "DynBuf \<Rightarrow> bufOp list \<Rightarrow> DynBuf" where
  "runOps buf [] = buf"
| "runOps buf (x # xs) = runOps (applyOp buf x) xs"

text \<open>What a sequence of operations should leave unread, on plain byte strings; a
  consume is within the contract when it asks for no more than is unread.\<close>

fun specOp :: "Buffer \<Rightarrow> bufOp \<Rightarrow> Buffer" where
  "specOp c (Push d) = c @ d"
| "specOp c (Pop n) = drop n c"

fun specOps :: "Buffer \<Rightarrow> bufOp list \<Rightarrow> Buffer" where
  "specOps c [] = c"
| "specOps c (x # xs) = specOps (specOp c x) xs"

fun popsWithin :: "Buffer \<Rightarrow> bufOp list \<Rightarrow> bool" where
  "popsWithin c [] = True"
| "popsWithin c (Push d # xs) = popsWithin (c @ d) xs"
| "popsWithin c (Pop n # xs) = (n \<le> length c \<and> popsWithin (drop n c) xs)"

section \<open>Header fields\<close>

text \<open>\<open>fieldGet(headers, key)\<close>: \<open>null\<close> is \<open>None\<close>.\<close>

definition fieldGet :: "Buffer list \<Rightarrow> string \<Rightarrow> Buffer option" where
  "fieldGet headers key = None"

section \<open>Exceptions and promises\<close>

text \<open>
  The values a response code can hold: \<open>handleReq\<close> stores a number, \<open>newConn\<close> stores
  whatever reading a property of the caught exception gives.
\<close>

datatype jsval = Undefined | Num int | Str string

text \<open>
  The two classes of exception the program throws: \<open>new Error(message)\<close> and
  \<open>new HTTPError(statusCode, message)\<close>. The constructor of \<open>HTTPError\<close> passes the message
  to \<open>Error\<close> and sets the properties \<open>name\<close> and \<open>statusCode\<close>; \<open>getProp exc k\<close> is the
  property read \<open>exc.k\<close>, which is \<open>undefined\<close> for a property the object does not have.
  \<open>TypeError\<close> is what the engine throws when a property of \<open>undefined\<close> is read; it is
  an \<open>Error\<close> and not an \<open>HTTPError\<close>, and the wording of its message is the engine's.
\<close>

datatype Exc = Error string | TypeError string | HTTPError int string

fun getProp :: "Exc \<Rightarrow> string \<Rightarrow> jsval" where
  "getProp (Error msg) k =
     (if k = ''message'' then Str msg
      else if k = ''name'' then Str ''Error''
      else Undefined)"
| "getProp (TypeError msg) k =
     (if k = ''message'' then Str msg
      else if k = ''name'' then Str ''TypeError''
      else Undefined)"
| "getProp (HTTPError statusCode msg) k =
     (if k = ''message'' then Str msg
      else if k = ''name'' then Str ''HTTPError''
      else if k = ''statusCode'' then Num statusCode
      else Undefined)"

text \<open>
  A synchronous function that can throw returns \<open>Exc + 'a\<close>. An awaited promise is
  resolved, rejected, or never settled.
\<close>

datatype 'a res = Return 'a | Throw Exc | Pending

section \<open>The promise-based socket\<close>

text \<open>
  The socket is the environment: \<open>incoming\<close> is what it will emit, in order (\<open>'data'\<close>,
  \<open>'end'\<close>, \<open>'error'\<close>), one event for each read that waits; \<open>written\<close> collects the
  chunks \<open>socket.write\<close> accepted; \<open>writeErr\<close> is the error \<open>socket.write\<close> hands to its
  callback, if any; \<open>destroyed\<close> records \<open>socket.destroy()\<close>. The field \<open>reader\<close> of
  \<open>TCPConn\<close> holds the callbacks of the read in flight and is \<open>null\<close> between two
  reads, so the model does not carry it.
\<close>

datatype event = Data Buffer | End | Err string

record Socket =
  incoming :: "event list"
  written :: "Buffer list"
  writeErr :: "string option"
  destroyed :: bool

record TCPConn =
  socket :: Socket
  err :: "string option"
  ended :: bool

definition soInit :: "Socket \<Rightarrow> TCPConn" where
  "soInit s = \<lparr>socket = s, err = None, ended = False\<rparr>"

definition soRead :: "TCPConn \<Rightarrow> Buffer res \<times> TCPConn" where
  "soRead c =
     (case err c of
        Some e \<Rightarrow> (Throw (Error e), c)
      | None \<Rightarrow>
          if ended c then (Return [], c)
          else (case incoming (socket c) of
                  [] \<Rightarrow> (Pending, c)
                | Data d # es \<Rightarrow> (Return d, c\<lparr>socket := (socket c)\<lparr>incoming := es\<rparr>\<rparr>)
                | End # es \<Rightarrow>
                    (Return [], c\<lparr>socket := (socket c)\<lparr>incoming := es\<rparr>, ended := True\<rparr>)
                | Err e # es \<Rightarrow>
                    (Throw (Error e),
                     c\<lparr>socket := (socket c)\<lparr>incoming := es\<rparr>, err := Some e\<rparr>)))"

definition soWrite :: "TCPConn \<Rightarrow> Buffer \<Rightarrow> unit res \<times> TCPConn" where
  "soWrite c d =
     (case writeErr (socket c) of
        Some e \<Rightarrow> (Throw (Error e), c)
      | None \<Rightarrow> (Return (), c\<lparr>socket := (socket c)\<lparr>written := written (socket c) @ [d]\<rparr>\<rparr>))"

section \<open>Requests, responses and body readers\<close>

text \<open>\<open>type HTTPReq\<close>; its field \<open>method\<close> is named \<open>method_req\<close> here.\<close>

record HTTPReq =
  method_req :: string
  uri :: Buffer
  version :: string
  headers :: "Buffer list"

text \<open>
  A \<open>BodyReader\<close> is an object \<open>{length, read}\<close> whose \<open>read\<close> closes over mutable
  variables: \<open>remain\<close> for the reader \<open>readerFromConnLength\<close> makes, \<open>data\<close> and \<open>done\<close> for
  the one \<open>readerFromMemory\<close> makes. The constructor holds \<open>length\<close> and those variables.
  The connection and the buffer that the first kind also closes over are the
  connection's own, and are passed to \<open>read_reader\<close>.
\<close>

datatype BodyReader =
    FromConnLength int nat
  | FromMemory int Buffer bool

fun length_body :: "BodyReader \<Rightarrow> int" where
  "length_body (FromConnLength len remain) = len"
| "length_body (FromMemory len d dn) = len"

text \<open>
  \<open>readerFromConnLength(conn, buf, remain)\<close> (httpServer.ts, lines 273-305) and
  \<open>readerFromMemory(data)\<close> (lines 329-342): the objects they return. \<open>remain\<close> is a natural
  number: the one call passes \<open>bodyLen\<close> under the test \<open>bodyLen >= 0\<close>, and \<open>read\<close> only
  subtracts \<open>Math.min(buf.length, remain)\<close> from it.
\<close>

definition readerFromConnLength :: "nat \<Rightarrow> BodyReader" where
  "readerFromConnLength remain = FromConnLength (int remain) remain"

definition readerFromMemory :: "Buffer \<Rightarrow> BodyReader" where
  "readerFromMemory d = FromMemory (int (length d)) d False"

text \<open>The last five statements of the known-length \<open>read\<close>: take what the buffer has, up
  to \<open>remain\<close>.\<close>

definition consumeFromBuf ::
  "int \<Rightarrow> nat \<Rightarrow> TCPConn \<Rightarrow> DynBuf \<Rightarrow> Buffer res \<times> BodyReader \<times> TCPConn \<times> DynBuf" where
  "consumeFromBuf len remain c b =
     (let consume = min (length_buf b) remain;
          remain' = remain - consume;
          d = subarray (data b) 0 consume;
          b' = bufPop b consume
      in (Return d, FromConnLength len remain', c, b'))"

fun read_reader ::
  "BodyReader \<Rightarrow> TCPConn \<Rightarrow> DynBuf \<Rightarrow> Buffer res \<times> BodyReader \<times> TCPConn \<times> DynBuf" where
  "read_reader (FromConnLength len remain) c b =
     (if remain = 0 then (Return [], FromConnLength len remain, c, b)
      else if length_buf b = 0 then
        (case soRead c of
           (Return d, c') \<Rightarrow>
             (let b' = bufPush b d
              in if length d = 0
                 then (Throw (Error ''Unexpected EOF from HTTP body''),
                       FromConnLength len remain, c', b')
                 else consumeFromBuf len remain c' b')
         | (Throw e, c') \<Rightarrow> (Throw e, FromConnLength len remain, c', b)
         | (Pending, c') \<Rightarrow> (Pending, FromConnLength len remain, c', b))
      else consumeFromBuf len remain c b)"
| "read_reader (FromMemory len d dn) c b =
     (if dn then (Return [], FromMemory len d dn, c, b)
      else (Return d, FromMemory len d True, c, b))"

text \<open>\<open>k\<close> successive calls of \<open>read\<close> on one reader, stopping at the first that does
  not resolve; the chunks are returned in order.\<close>

fun pulls ::
  "nat \<Rightarrow> BodyReader \<Rightarrow> TCPConn \<Rightarrow> DynBuf
     \<Rightarrow> (Buffer list) res \<times> BodyReader \<times> TCPConn \<times> DynBuf" where
  "pulls 0 rd c b = (Return [], rd, c, b)"
| "pulls (Suc k) rd c b =
     (case read_reader rd c b of
        (Return d, rd', c', b') \<Rightarrow>
          (case pulls k rd' c' b' of
             (Return ds, st) \<Rightarrow> (Return (d # ds), st)
           | (Throw e, st) \<Rightarrow> (Throw e, st)
           | (Pending, st) \<Rightarrow> (Pending, st))
      | (Throw e, st) \<Rightarrow> (Throw e, st)
      | (Pending, st) \<Rightarrow> (Pending, st))"

text \<open>
  A connection that is readable (no error latched, not ended) and whose socket will
  emit the non-empty data chunks \<open>chunks\<close>, in this order, before the events \<open>rest\<close>.
\<close>

definition streamHas :: "TCPConn \<Rightarrow> Buffer list \<Rightarrow> event list \<Rightarrow> bool" where
  "streamHas c chunks rest =
     (err c = None \<and> \<not> ended c \<and> incoming (socket c) = map Data chunks @ rest
      \<and> [] \<notin> set chunks)"

text \<open>
  Reader objects are shared: \<open>handleReq\<close> answers \<open>/echo\<close> with the request's own reader
  as the response body. So readers live in a store, \<open>w_heap\<close>, and a response holds the
  index of its body. \<open>World\<close> is the state of one connection.
\<close>

record HTTPRes =
  code :: jsval
  headers_res :: "Buffer list"
  body :: nat

record World =
  w_conn :: TCPConn
  w_buf :: DynBuf
  w_heap :: "BodyReader list"

definition newReader :: "BodyReader \<Rightarrow> World \<Rightarrow> nat \<times> World" where
  "newReader rd w = (length (w_heap w), w\<lparr>w_heap := w_heap w @ [rd]\<rparr>)"

text \<open>\<open>reader.read()\<close> through a reference \<open>r\<close>; every reference the program uses comes
  from \<open>newReader\<close> and is within the store.\<close>

definition read_body :: "nat \<Rightarrow> World \<Rightarrow> Buffer res \<times> World" where
  "read_body r w =
     (case read_reader (w_heap w ! r) (w_conn w) (w_buf w) of
        (x, rd', c', b') \<Rightarrow> (x, w\<lparr>w_conn := c', w_buf := b', w_heap := (w_heap w)[r := rd']\<rparr>))"

section \<open>Functions the two source files call and do not define\<close>

text \<open>
  \<open>splitLines\<close>, \<open>parseRequestLine\<close>, \<open>validateHeader\<close>, \<open>parseDec\<close> and \<open>encodeHTTPResp\<close> are
  called in httpServer.ts and defined nowhere in the repository; they are parameters.
  \<open>parseRequestLine\<close> gets \<open>lines[0]\<close>, which is \<open>undefined\<close> (\<open>None\<close>) for an empty array,
  and may throw; \<open>parseDec\<close> answers a number or \<open>NaN\<close> (\<open>None\<close>).
\<close>

record Externals =
  splitLines :: "Buffer \<Rightarrow> Buffer list"
  parseRequestLine :: "Buffer option \<Rightarrow> Exc + (string \<times> Buffer \<times> string)"
  validateHeader :: "Buffer \<Rightarrow> bool"
  parseDec :: "string \<Rightarrow> int option"
  encodeHTTPResp :: "HTTPRes \<Rightarrow> Buffer"

section \<open>Framing and parsing of HTTP requests\<close>

definition CR :: char where "CR = CHR 0x0D"
definition LF :: char where "LF = CHR 0x0A"

definition kMaxHeaderLen :: nat where
  "kMaxHeaderLen = 1024 * 8"

text \<open>The loop over \<open>lines[1 .. lines.length - 2]\<close> of \<open>parseHTTPReq\<close>.\<close>

fun headerLoop :: "Externals \<Rightarrow> Buffer list \<Rightarrow> Buffer list \<Rightarrow> Exc + Buffer list" where
  "headerLoop X [] hs = Inr hs"
| "headerLoop X (h # rest) hs =
     (if \<not> validateHeader X h then Inl (HTTPError 400 ''bad field'')
      else headerLoop X rest (hs @ [h]))"

text \<open>
  \<open>parseHTTPReq\<close> (lines 216-235). After the loop, \<open>console.assert\<close> evaluates
  \<open>lines[lines.length - 1].length\<close>: for an empty array \<open>lines[-1]\<close> is \<open>undefined\<close> and
  reading its \<open>length\<close> throws a \<open>TypeError\<close>; for a non-empty one the assertion prints
  at most and the request is returned.
\<close>

definition parseHTTPReq :: "Externals \<Rightarrow> Buffer \<Rightarrow> Exc + HTTPReq" where
  "parseHTTPReq X d =
     (let ls = splitLines X d
      in case parseRequestLine X (case ls of [] \<Rightarrow> None | l # _ \<Rightarrow> Some l) of
           Inl e \<Rightarrow> Inl e
         | Inr (m, u, v) \<Rightarrow>
             (case headerLoop X (butlast (tl ls)) [] of
                Inl e \<Rightarrow> Inl e
              | Inr hs \<Rightarrow>
                  if ls = []
                  then Inl (TypeError ''Cannot read properties of undefined'')
                  else Inr \<lparr>method_req = m, uri = u, version = v, headers = hs\<rparr>))"

text \<open>\<open>cutMessage\<close> of httpServer.ts: the result and the buffer as the call leaves it.\<close>

definition cutMessage :: "Externals \<Rightarrow> DynBuf \<Rightarrow> (Exc + HTTPReq option) \<times> DynBuf" where
  "cutMessage X b =
     (let idx = indexOf (subarray (data b) 0 (length_buf b)) [CR, LF, CR, LF]
      in if idx < 0
         then (if kMaxHeaderLen \<le> length_buf b
               then (Inl (HTTPError 413 ''header is too large''), b)
               else (Inr None, b))
         else (case parseHTTPReq X (subarray (data b) 0 (nat idx + 4)) of
                 Inl e \<Rightarrow> (Inl e, b)
               | Inr msg \<Rightarrow> (Inr (Some msg), bufPop b (nat idx + 4))))"

text \<open>A byte string has the header terminator \<open>\r\n\r\n\<close> somewhere.\<close>

fun hasTerminator :: "Buffer \<Rightarrow> bool" where
  "hasTerminator [] = False"
| "hasTerminator (x # xs) = (take 4 (x # xs) = [CR, LF, CR, LF] \<or> hasTerminator xs)"

section \<open>Choosing the body reader\<close>

text \<open>
  \<open>readerFromReq\<close> after its two header lookups: \<open>contentLen\<close> and \<open>te\<close> are what
  \<open>fieldGet\<close> answered for \<open>Content-Length\<close> and \<open>Transfer-Encoding\<close>. A \<open>Buffer\<close> is truthy
  even when empty, so \<open>if (contentLen)\<close> tests for \<open>null\<close>.
\<close>

definition readerFromFields ::
  "Externals \<Rightarrow> string \<Rightarrow> Buffer option \<Rightarrow> Buffer option \<Rightarrow> Exc + BodyReader" where
  "readerFromFields X m contentLen te =
     (case (case contentLen of
              None \<Rightarrow> Inr (- 1)
            | Some v \<Rightarrow> (case parseDec X v of
                           None \<Rightarrow> Inl (HTTPError 400 ''bad Content-Length'')
                         | Some n \<Rightarrow> Inr n)) of
        Inl e \<Rightarrow> Inl e
      | Inr bodyLen \<Rightarrow>
          (let bodyAllowed = \<not> (m = ''GET'' \<or> m = ''HEAD'');
               chunked = (case te of None \<Rightarrow> False | Some v \<Rightarrow> v = ''chunked'')
           in if \<not> bodyAllowed \<and> (bodyLen > 0 \<or> chunked)
              then Inl (HTTPError 400 ''HTTP body not allowed'')
              else (let bodyLen' = (if \<not> bodyAllowed then 0 else bodyLen)
                    in if bodyLen' \<ge> 0 then Inr (readerFromConnLength (nat bodyLen'))
                       else if chunked then Inl (HTTPError 501 ''TODO'')
                       else Inl (HTTPError 501 ''TODO''))))"

definition readerFromReq :: "Externals \<Rightarrow> HTTPReq \<Rightarrow> Exc + BodyReader" where
  "readerFromReq X req =
     readerFromFields X (method_req req)
       (fieldGet (headers req) ''Content-Length'')
       (fieldGet (headers req) ''Transfer-Encoding'')"

section \<open>Handling a request and writing the response\<close>

text \<open>\<open>handleReq\<close> (lines 308-326): an \<open>async\<close> function that always resolves. For \<open>/echo\<close>
  the response body is the request's reader itself, otherwise a new in-memory reader.\<close>

definition handleReq :: "HTTPReq \<Rightarrow> nat \<Rightarrow> World \<Rightarrow> HTTPRes \<times> World" where
  "handleReq req reqBody w =
     (if uri req = ''/echo''
      then (\<lparr>code = Num 200, headers_res = [''Server: my_first_http_server''],
             body = reqBody\<rparr>, w)
      else (case newReader (readerFromMemory (''hello world.'' @ [LF])) w of
              (r, w') \<Rightarrow>
                (\<lparr>code = Num 200, headers_res = [''Server: my_first_http_server''],
                  body = r\<rparr>, w')))"

text \<open>The loop of \<open>writeHTTPResp\<close> that writes the body.\<close>

partial_function (option) writeBody :: "nat \<Rightarrow> World \<Rightarrow> (unit res \<times> World) option" where
  "writeBody r w =
     (case read_body r w of
        (Throw e, w1) \<Rightarrow> Some (Throw e, w1)
      | (Pending, w1) \<Rightarrow> Some (Pending, w1)
      | (Return d, w1) \<Rightarrow>
          if length d = 0 then Some (Return (), w1)
          else (case soWrite (w_conn w1) d of
                  (Throw e, c) \<Rightarrow> Some (Throw e, w1\<lparr>w_conn := c\<rparr>)
                | (Pending, c) \<Rightarrow> Some (Pending, w1\<lparr>w_conn := c\<rparr>)
                | (Return u, c) \<Rightarrow> writeBody r (w1\<lparr>w_conn := c\<rparr>)))"

text \<open>
  \<open>writeHTTPResp\<close>. The test \<open>if (resp.body.length)\<close> holds for every length but 0. The
  header field is pushed from a string in single quotes, so it is those very
  characters. \<open>console.assert\<close> prints and goes on.
\<close>

definition writeHTTPResp :: "Externals \<Rightarrow> HTTPRes \<Rightarrow> World \<Rightarrow> (unit res \<times> World) option" where
  "writeHTTPResp X resp w =
     (if length_body (w_heap w ! body resp) \<noteq> 0
      then Some (Throw (Error ''TODO: chunked encoding''), w)
      else (let resp1 = resp\<lparr>headers_res :=
                          headers_res resp @ [''Content-Length: ${resp.body.length}'']\<rparr>
            in case soWrite (w_conn w) (encodeHTTPResp X resp1) of
                 (Throw e, c) \<Rightarrow> Some (Throw e, w\<lparr>w_conn := c\<rparr>)
               | (Pending, c) \<Rightarrow> Some (Pending, w\<lparr>w_conn := c\<rparr>)
               | (Return u, c) \<Rightarrow> writeBody (body resp) (w\<lparr>w_conn := c\<rparr>)))"

section \<open>The connection driver\<close>

text \<open>The loop \<open>while ((await reqBody.read()).length > 0) {}\<close>.\<close>

partial_function (option) drainBody :: "nat \<Rightarrow> World \<Rightarrow> (unit res \<times> World) option" where
  "drainBody r w =
     (case read_body r w of
        (Throw e, w1) \<Rightarrow> Some (Throw e, w1)
      | (Pending, w1) \<Rightarrow> Some (Pending, w1)
      | (Return d, w1) \<Rightarrow> if length d > 0 then drainBody r w1 else Some (Return (), w1))"

text \<open>The \<open>while (true)\<close> loop of \<open>serveClient\<close>.\<close>

partial_function (option) serveLoop :: "Externals \<Rightarrow> World \<Rightarrow> (unit res \<times> World) option" where
  "serveLoop X w =
     (case cutMessage X (w_buf w) of
        (Inl e, b) \<Rightarrow> Some (Throw e, w\<lparr>w_buf := b\<rparr>)
      | (Inr None, b) \<Rightarrow>
          (case soRead (w_conn w) of
             (Throw e, c) \<Rightarrow> Some (Throw e, w\<lparr>w_conn := c, w_buf := b\<rparr>)
           | (Pending, c) \<Rightarrow> Some (Pending, w\<lparr>w_conn := c, w_buf := b\<rparr>)
           | (Return d, c) \<Rightarrow>
               (let w1 = w\<lparr>w_conn := c, w_buf := bufPush b d\<rparr>
                in if length d = 0 \<and> length_buf (w_buf w1) = 0 then Some (Return (), w1)
                   else if length d = 0
                   then Some (Throw (HTTPError 400 ''Unexpected EOF''), w1)
                   else serveLoop X w1))
      | (Inr (Some msg), b) \<Rightarrow>
          (case readerFromReq X msg of
             Inl e \<Rightarrow> Some (Throw e, w\<lparr>w_buf := b\<rparr>)
           | Inr rd \<Rightarrow>
               (case newReader rd (w\<lparr>w_buf := b\<rparr>) of
                  (reqBody, w2) \<Rightarrow>
                    (case handleReq msg reqBody w2 of
                       (resp, w3) \<Rightarrow>
                         (case writeHTTPResp X resp w3 of
                            None \<Rightarrow> None
                          | Some (Throw e, w4) \<Rightarrow> Some (Throw e, w4)
                          | Some (Pending, w4) \<Rightarrow> Some (Pending, w4)
                          | Some (Return u, w4) \<Rightarrow>
                              if version msg = ''1.0'' then Some (Return (), w4)
                              else (case drainBody reqBody w4 of
                                      None \<Rightarrow> None
                                    | Some (Throw e, w5) \<Rightarrow> Some (Throw e, w5)
                                    | Some (Pending, w5) \<Rightarrow> Some (Pending, w5)
                                    | Some (Return u', w5) \<Rightarrow> serveLoop X w5))))))"

definition serveClient :: "Externals \<Rightarrow> TCPConn \<Rightarrow> (unit res \<times> World) option" where
  "serveClient X c = serveLoop X \<lparr>w_conn = c, w_buf = emptyBuf, w_heap = []\<rparr>"

text \<open>\<open>socket.destroy()\<close>, on the socket the connection wraps.\<close>

definition destroy :: "World \<Rightarrow> World" where
  "destroy w = w\<lparr>w_conn := (w_conn w)\<lparr>socket := (socket (w_conn w))\<lparr>destroyed := True\<rparr>\<rparr>\<rparr>"

text \<open>The response object \<open>newConn\<close> builds for a caught \<open>HTTPError\<close>, with \<open>r\<close> the new
  in-memory reader of its body.\<close>

definition errorResp :: "Exc \<Rightarrow> nat \<Rightarrow> HTTPRes" where
  "errorResp exc r = \<lparr>code = getProp exc ''code'', headers_res = [], body = r\<rparr>"

text \<open>
  \<open>newConn\<close> of httpServer.ts. The inner \<open>catch\<close> swallows whatever the write of the
  error response throws; \<open>finally\<close> destroys the socket on every path that ends. A
  promise that never settles leaves \<open>newConn\<close> pending, before \<open>finally\<close>.
\<close>

definition newConn :: "Externals \<Rightarrow> Socket \<Rightarrow> (unit res \<times> World) option" where
  "newConn X s =
     (case serveClient X (soInit s) of
        None \<Rightarrow> None
      | Some (Return u, w) \<Rightarrow> Some (Return (), destroy w)
      | Some (Pending, w) \<Rightarrow> Some (Pending, w)
      | Some (Throw exc, w) \<Rightarrow>
          (case exc of
             Error m \<Rightarrow> Some (Return (), destroy w)
           | TypeError m \<Rightarrow> Some (Return (), destroy w)
           | HTTPError statusCode m \<Rightarrow>
               (case newReader (readerFromMemory (m @ [LF])) w of
                  (r, w1) \<Rightarrow>
                    (case writeHTTPResp X (errorResp exc r) w1 of
                       None \<Rightarrow> None
                     | Some (Pending, w2) \<Rightarrow> Some (Pending, w2)
                     | Some (Return u, w2) \<Rightarrow> Some (Return (), destroy w2)
                     | Some (Throw e, w2) \<Rightarrow> Some (Return (), destroy w2)))))"

section \<open>The line protocol of server.ts\<close>

text \<open>
  server.ts has its own \<open>DynBuf\<close>, with a \<open>start\<close> field, and its own \<open>cutMessage\<close>; its
  \<open>bufPush\<close> is the same text as the one of httpServer.ts and leaves \<open>start\<close> alone.
\<close>

record DynBuf_line =
  data_line :: Buffer
  length_line :: nat
  start_line :: nat

definition bufPush_line :: "DynBuf_line \<Rightarrow> Buffer \<Rightarrow> DynBuf_line" where
  "bufPush_line buf d =
     (let newLen = length_line buf + length d;
          buf1 = (if length_line buf < newLen
                  then (let cap = growCap (max (length (data_line buf)) 32) newLen;
                            grown = copy (data_line buf) (alloc cap) 0
                        in buf\<lparr>data_line := grown\<rparr>)
                  else buf)
      in buf1\<lparr>data_line := copy d (data_line buf1) (length_line buf1),
              length_line := newLen\<rparr>)"

text \<open>
  \<open>cutMessage\<close> of server.ts. \<open>buf.start\<close> is assigned before \<open>buf.length\<close> is reduced by
  \<open>idx + 1 - buf.start\<close>, computed here on integers. \<open>buf.start > buf.data.length / 2\<close>
  is a comparison of reals, written without the division.
\<close>

definition cutMessage_line :: "DynBuf_line \<Rightarrow> Buffer option \<times> DynBuf_line" where
  "cutMessage_line buf =
     (let idx = indexOf (subarray (data_line buf) 0 (length_line buf)) [LF]
      in if idx < 0 then (None, buf)
         else (let msg = subarray (data_line buf) 0 (nat idx + 1);
                   buf1 = buf\<lparr>start_line := nat idx + 1\<rparr>;
                   buf2 = buf1\<lparr>length_line :=
                            nat (int (length_line buf1) - (idx + 1 - int (start_line buf1)))\<rparr>;
                   buf3 = (if 2 * start_line buf2 > length (data_line buf2)
                           then buf2\<lparr>data_line :=
                                       subarray (data_line buf2) (start_line buf2)
                                         (start_line buf2 + length_line buf2),
                                     start_line := 0\<rparr>
                           else buf2)
               in (Some msg, buf3)))"

text \<open>The buffer \<open>{data: Buffer.alloc(0), length: 0, start: 0}\<close> of server.ts.\<close>

definition emptyBuf_line :: DynBuf_line where
  "emptyBuf_line = \<lparr>data_line = alloc 0, length_line = 0, start_line = 0\<rparr>"


section \<open>Properties of the dynamic buffer\<close>

lemma growCap_unfold:
  "0 < cap \<Longrightarrow> growCap cap newLen = (if cap < newLen then growCap (cap * 2) newLen else cap)"
  by (subst growCap.simps) simp

lemma growCap_ge: "0 < cap \<Longrightarrow> newLen \<le> growCap cap newLen \<and> cap \<le> growCap cap newLen"
proof (induction cap newLen rule: growCap.induct)
  case (1 cap newLen)
  show ?case
  proof (cases "cap < newLen")
    case True
    with 1 have "newLen \<le> growCap (cap * 2) newLen \<and> cap * 2 \<le> growCap (cap * 2) newLen"
      by simp
    with True 1(2) show ?thesis by (subst growCap.simps, subst growCap.simps) simp
  next
    case False
    then show ?thesis by (subst growCap.simps, subst growCap.simps) simp
  qed
qed

lemma length_copy [simp]: "length (copy src target k) = length target"
  by (auto simp: copy_def Let_def min_def)

lemma length_copyWithin [simp]: "length (copyWithin b t s e) = length b"
  by (auto simp: copyWithin_def Let_def min_def)

lemma length_alloc [simp]: "length (alloc n) = n"
  by (simp add: alloc_def)

lemma content_bufPush:
  assumes "length_buf buf \<le> length (data buf)"
  shows "content (bufPush buf d) = content buf @ d"
    and "length_buf (bufPush buf d) \<le> length (data (bufPush buf d))"
    and "length_buf (bufPush buf d) = length_buf buf + length d"
proof -
  show "length_buf (bufPush buf d) = length_buf buf + length d"
    by (simp add: bufPush_def Let_def)
  show "content (bufPush buf d) = content buf @ d"
  proof (cases "d = []")
    case True
    with assms show ?thesis
      by (simp add: bufPush_def Let_def content_def subarray_def copy_def)
  next
    case False
    define cap where "cap = growCap (max (length (data buf)) 32) (length_buf buf + length d)"
    have cap: "length_buf buf + length d \<le> cap" "length (data buf) \<le> cap"
      using growCap_ge [of "max (length (data buf)) 32" "length_buf buf + length d"]
      by (auto simp: cap_def)
    from False have lt: "length_buf buf < length_buf buf + length d" by simp
    have grown: "copy (data buf) (alloc cap) 0 = data buf @ alloc (cap - length (data buf))"
      using cap(2) by (simp add: copy_def Let_def alloc_def min_def)
    show ?thesis
      using assms cap lt
      by (simp add: bufPush_def Let_def content_def subarray_def cap_def [symmetric] grown)
         (simp add: copy_def Let_def min_def)
  qed
  show "length_buf (bufPush buf d) \<le> length (data (bufPush buf d))"
  proof (cases "d = []")
    case True
    with assms show ?thesis by (simp add: bufPush_def Let_def)
  next
    case False
    have "length_buf buf + length d
            \<le> growCap (max (length (data buf)) 32) (length_buf buf + length d)"
      using growCap_ge [of "max (length (data buf)) 32" "length_buf buf + length d"] by simp
    with False show ?thesis by (simp add: bufPush_def Let_def)
  qed
qed

lemma content_bufPop:
  assumes "length_buf buf \<le> length (data buf)" and "n \<le> length_buf buf"
  shows "content (bufPop buf n) = drop n (content buf)"
    and "length_buf (bufPop buf n) \<le> length (data (bufPop buf n))"
    and "length_buf (bufPop buf n) = length_buf buf - n"
proof -
  show "content (bufPop buf n) = drop n (content buf)"
    using assms
    by (simp add: bufPop_def content_def subarray_def copyWithin_def Let_def min_def drop_take)
  show "length_buf (bufPop buf n) \<le> length (data (bufPop buf n))"
    using assms by (simp add: bufPop_def)
  show "length_buf (bufPop buf n) = length_buf buf - n"
    by (simp add: bufPop_def)
qed

lemma length_content: "length_buf buf \<le> length (data buf) \<Longrightarrow> length (content buf) = length_buf buf"
  by (simp add: content_def subarray_def)

lemma runOps_spec:
  "length_buf buf \<le> length (data buf) \<Longrightarrow> popsWithin (content buf) ops \<Longrightarrow>
     content (runOps buf ops) = specOps (content buf) ops
     \<and> length_buf (runOps buf ops) \<le> length (data (runOps buf ops))"
proof (induction ops arbitrary: buf)
  case Nil
  then show ?case by simp
next
  case (Cons x xs)
  show ?case
  proof (cases x)
    case (Push d)
    with Cons.prems have "popsWithin (content (bufPush buf d)) xs"
      by (simp add: content_bufPush)
    from Cons.IH [OF content_bufPush(2) [OF Cons.prems(1)] this] Cons.prems(1) Push
    show ?thesis
      by (simp add: content_bufPush)
  next
    case (Pop n)
    with Cons.prems have n: "n \<le> length_buf buf"
      by (simp add: length_content)
    with Cons.prems Pop have "popsWithin (content (bufPop buf n)) xs"
      by (simp add: content_bufPop)
    from Cons.IH [OF content_bufPop(2) [OF Cons.prems(1) n] this] Cons.prems(1) n Pop
    show ?thesis
      by (simp add: content_bufPop)
  qed
qed

section \<open>Properties of the framer\<close>

lemma indexOfFrom_terminator:
  "(indexOfFrom i c [CR, LF, CR, LF] < 0) = (\<not> hasTerminator c)"
  by (induction c arbitrary: i) (auto simp: eval_nat_numeral)

lemma hasTerminator_CR: "hasTerminator c \<Longrightarrow> CR \<in> set c"
  by (induction c) (auto dest: in_set_takeD)

lemma hasTerminator_occurs: "hasTerminator c = (\<exists>i. take 4 (drop i c) = [CR, LF, CR, LF])"
proof (induction c)
  case Nil
  then show ?case by simp
next
  case (Cons x xs)
  show ?case
  proof
    assume "hasTerminator (x # xs)"
    then consider "take 4 (x # xs) = [CR, LF, CR, LF]" | "hasTerminator xs" by auto
    then show "\<exists>i. take 4 (drop i (x # xs)) = [CR, LF, CR, LF]"
    proof cases
      case 1
      then have "take 4 (drop 0 (x # xs)) = [CR, LF, CR, LF]" by simp
      then show ?thesis by blast
    next
      case 2
      with Cons.IH obtain i where "take 4 (drop i xs) = [CR, LF, CR, LF]" by blast
      then have "take 4 (drop (Suc i) (x # xs)) = [CR, LF, CR, LF]" by simp
      then show ?thesis by blast
    qed
  next
    assume "\<exists>i. take 4 (drop i (x # xs)) = [CR, LF, CR, LF]"
    then obtain i where i: "take 4 (drop i (x # xs)) = [CR, LF, CR, LF]" by blast
    show "hasTerminator (x # xs)"
    proof (cases i)
      case 0
      with i show ?thesis by simp
    next
      case (Suc j)
      with i have "take 4 (drop j xs) = [CR, LF, CR, LF]" by simp
      with Cons.IH show ?thesis by auto
    qed
  qed
qed

lemma parseHTTPReq_no_lines:
  "splitLines X d = [] \<Longrightarrow> parseRequestLine X None = Inr t \<Longrightarrow>
     parseHTTPReq X d = Inl (TypeError ''Cannot read properties of undefined'')"
  by (cases t) (simp add: parseHTTPReq_def)

lemma cutMessage_null:
  "fst (cutMessage X b0) = Inr None \<Longrightarrow> cutMessage X b0 = (Inr None, b0)"
  by (auto simp: cutMessage_def Let_def split: if_splits sum.splits)

lemma cutMessage_emptyBuf: "cutMessage X emptyBuf = (Inr None, emptyBuf)"
  by code_simp

lemma cutMessage_one_byte:
  "cutMessage X (bufPush emptyBuf ''x'') = (Inr None, bufPush emptyBuf ''x'')"
  by code_simp

lemma length_buf_one_byte: "length_buf (bufPush emptyBuf ''x'') = 1"
  by code_simp

section \<open>Properties of the body readers\<close>

lemma pulls_memory_done:
  "pulls k (FromMemory len d True) c b = (Return (replicate k []), FromMemory len d True, c, b)"
  by (induction k) simp_all

lemma soRead_data:
  "soRead c = (Return d, c') \<Longrightarrow> d \<noteq> [] \<Longrightarrow> incoming (socket c) = Data d # incoming (socket c')"
  by (auto simp: soRead_def split: option.splits if_splits list.splits event.splits)

lemma consumeFromBuf_eq:
  assumes "bufInv b"
  shows "consumeFromBuf len r c b =
           (Return (take (min (length_buf b) r) (content b)),
            FromConnLength len (r - min (length_buf b) r), c, bufPop b (min (length_buf b) r))"
  using assms
  by (simp add: consumeFromBuf_def Let_def content_def subarray_def bufInv_def min_def)

lemma read_reader_step:
  assumes "bufInv b"
      and "read_reader (FromConnLength len r) c b = (Return d, rd', c', b')"
  shows "\<exists>chunks. rd' = FromConnLength len (r - length d) \<and> length d \<le> r
           \<and> incoming (socket c) = map Data chunks @ incoming (socket c')
           \<and> content b @ concat chunks = d @ content b'
           \<and> bufInv b' \<and> (d = [] \<longrightarrow> r = 0)"
proof (cases "r = 0")
  case True
  with assms(2) have "d = []" "rd' = FromConnLength len r" "c' = c" "b' = b" by auto
  with True assms(1) show ?thesis by (intro exI [of _ "[]"]) simp
next
  case False
  note r = this
  show ?thesis
  proof (cases "length_buf b = 0")
    case False
    let ?m = "min (length_buf b) r"
    from False r assms have eq: "d = take ?m (content b)" "rd' = FromConnLength len (r - ?m)"
      "c' = c" "b' = bufPop b ?m"
      by (simp_all add: consumeFromBuf_eq)
    have inv: "length_buf b \<le> length (data b)" using assms(1) by (simp add: bufInv_def)
    have m: "?m \<le> length_buf b" by simp
    have len: "length d = ?m"
      using eq(1) length_content [OF inv] by simp
    have c': "content b' = drop ?m (content b)"
      using content_bufPop(1) [OF inv m] eq(4) by simp
    have inv': "bufInv b'"
      using content_bufPop(2) [OF inv m] eq(4) by (simp add: bufInv_def)
    from False r have "d \<noteq> []" using len by auto
    with eq len c' inv' show ?thesis
      by (intro exI [of _ "[]"]) simp
  next
    case True
    note empty = this
    obtain x c1 where sr: "soRead c = (x, c1)" by (cases "soRead c")
    from assms(2) r empty sr obtain d0 where x: "x = Return d0" and d0: "d0 \<noteq> []"
      by (cases x) (auto simp: Let_def split: if_splits)
    let ?b1 = "bufPush b d0"
    let ?m = "min (length_buf ?b1) r"
    have inv: "length_buf b \<le> length (data b)" using assms(1) by (simp add: bufInv_def)
    have inv1: "length_buf ?b1 \<le> length (data ?b1)" using content_bufPush(2) [OF inv] .
    have binv1: "bufInv ?b1" using inv1 by (simp add: bufInv_def)
    have cb: "content b = []" using empty by (simp add: content_def subarray_def)
    have c1: "content ?b1 = d0" using content_bufPush(1) [OF inv, of d0] cb by simp
    have l1: "length_buf ?b1 = length d0" using content_bufPush(3) [of b d0] empty inv by simp
    from assms(2) r empty sr x d0 have eq: "d = take ?m (content ?b1)"
      "rd' = FromConnLength len (r - ?m)" "c' = c1" "b' = bufPop ?b1 ?m"
      by (simp_all add: consumeFromBuf_eq [OF binv1] Let_def)
    have m: "?m \<le> length_buf ?b1" by simp
    have len: "length d = ?m" using eq(1) c1 l1 by simp
    have c': "content b' = drop ?m d0"
      using content_bufPop(1) [OF inv1 m] eq(4) c1 by simp
    have inv': "bufInv b'"
      using content_bufPop(2) [OF inv1 m] eq(4) by (simp add: bufInv_def)
    have inc: "incoming (socket c) = Data d0 # incoming (socket c')"
      using soRead_data [of c d0 c1] sr x d0 eq(3) by simp
    have "0 < ?m" using l1 d0 r by (cases d0) auto
    then have "d \<noteq> []" using len by auto
    with eq(2) len c' inv' inc cb eq(1) c1 show ?thesis
      by (intro exI [of _ "[d0]"]) simp
  qed
qed

lemma pulls_exhausted:
  "pulls j (FromConnLength len 0) c b = (Return (replicate j []), FromConnLength len 0, c, b)"
  by (induction j) simp_all

lemma pulls_ConnLength:
  "bufInv b \<Longrightarrow> pulls k (FromConnLength len r) c b = (Return ds, rd', c', b') \<Longrightarrow>
     \<exists>chunks. rd' = FromConnLength len (r - length (concat ds)) \<and> length (concat ds) \<le> r
        \<and> incoming (socket c) = map Data chunks @ incoming (socket c')
        \<and> content b @ concat chunks = concat ds @ content b'
        \<and> bufInv b' \<and> (ds \<noteq> [] \<and> last ds = [] \<longrightarrow> length (concat ds) = r)"
proof (induction k arbitrary: r c b ds)
  case 0
  then show ?case by (intro exI [of _ "[]"]) auto
next
  case (Suc k)
  obtain x rd1 c1 b1 where rr: "read_reader (FromConnLength len r) c b = (x, rd1, c1, b1)"
    by (cases "read_reader (FromConnLength len r) c b")
  from Suc.prems(2) rr obtain d where x: "x = Return d"
    by (cases x) auto
  obtain y st where pk: "pulls k rd1 c1 b1 = (y, st)" by (cases "pulls k rd1 c1 b1")
  from Suc.prems(2) rr x pk obtain ds' where y: "y = Return ds'" and ds: "ds = d # ds'"
    and st: "st = (rd', c', b')"
    by (cases y) auto
  from read_reader_step [OF Suc.prems(1) rr [unfolded x]]
  obtain ch1 where s1: "rd1 = FromConnLength len (r - length d)" "length d \<le> r"
      "incoming (socket c) = map Data ch1 @ incoming (socket c1)"
      "content b @ concat ch1 = d @ content b1" "bufInv b1" "d = [] \<longrightarrow> r = 0"
    by blast
  from Suc.IH [OF s1(5), of "r - length d" c1 ds'] pk y st s1(1)
  obtain ch2 where s2: "rd' = FromConnLength len (r - length d - length (concat ds'))"
      "length (concat ds') \<le> r - length d"
      "incoming (socket c1) = map Data ch2 @ incoming (socket c')"
      "content b1 @ concat ch2 = concat ds' @ content b'" "bufInv b'"
      "ds' \<noteq> [] \<and> last ds' = [] \<longrightarrow> length (concat ds') = r - length d"
    by auto
  have a: "rd' = FromConnLength len (r - length (concat ds))"
    using s2(1) ds by (simp add: diff_diff_left)
  have b: "length (concat ds) \<le> r" using s1(2) s2(2) ds by simp
  have c: "incoming (socket c) = map Data (ch1 @ ch2) @ incoming (socket c')"
    using s1(3) s2(3) by simp
  have "content b @ concat (ch1 @ ch2) = (d @ content b1) @ concat ch2"
    using s1(4) by simp
  also have "\<dots> = concat ds @ content b'" using s2(4) ds by simp
  finally have d: "content b @ concat (ch1 @ ch2) = concat ds @ content b'" .
  have e: "ds \<noteq> [] \<and> last ds = [] \<longrightarrow> length (concat ds) = r"
  proof (cases "ds' = []")
    case True
    with ds s1(6) show ?thesis by auto
  next
    case False
    with ds s2(6) s1(2) show ?thesis by auto
  qed
  from a b c d e s2(5) show ?case by blast
qed


lemma read_reader_ok:
  assumes "bufInv b" and "0 < r" and "streamHas c chunks rest"
      and "r \<le> length (content b) + length (concat chunks)"
  shows "\<exists>d rd' c' b' chunks'.
           read_reader (FromConnLength len r) c b = (Return d, rd', c', b')
           \<and> d \<noteq> [] \<and> length d \<le> r \<and> rd' = FromConnLength len (r - length d)
           \<and> bufInv b' \<and> streamHas c' chunks' rest
           \<and> content b @ concat chunks = d @ content b' @ concat chunks'"
proof (cases "length_buf b = 0")
  case False
  let ?m = "min (length_buf b) r"
  have inv: "length_buf b \<le> length (data b)" using assms(1) by (simp add: bufInv_def)
  have m: "?m \<le> length_buf b" by simp
  have rr: "read_reader (FromConnLength len r) c b =
          (Return (take ?m (content b)), FromConnLength len (r - ?m), c, bufPop b ?m)"
    using False assms(1,2) by (simp add: consumeFromBuf_eq)
  have len: "length (take ?m (content b)) = ?m"
    using length_content [OF inv] by simp
  have pos: "0 < ?m" using False assms(2) by simp
  have c': "content (bufPop b ?m) = drop ?m (content b)"
    using content_bufPop(1) [OF inv m] .
  have inv': "bufInv (bufPop b ?m)"
    using content_bufPop(2) [OF inv m] by (simp add: bufInv_def)
  have "content b @ concat chunks
          = take ?m (content b) @ content (bufPop b ?m) @ concat chunks"
    using c' by simp
  with rr len pos inv' assms(3) show ?thesis
    by (intro exI [of _ "take ?m (content b)"] exI [of _ "FromConnLength len (r - ?m)"]
          exI [of _ c] exI [of _ "bufPop b ?m"] exI [of _ chunks]) auto
next
  case True
  have inv: "length_buf b \<le> length (data b)" using assms(1) by (simp add: bufInv_def)
  have cb: "content b = []" using True by (simp add: content_def subarray_def)
  with assms(2,4) obtain d0 chunks0 where ch: "chunks = d0 # chunks0"
    by (cases chunks) auto
  with assms(3) have d0: "d0 \<noteq> []" by (auto simp: streamHas_def)
  let ?c1 = "c\<lparr>socket := (socket c)\<lparr>incoming := map Data chunks0 @ rest\<rparr>\<rparr>"
  have sr: "soRead c = (Return d0, ?c1)"
    using assms(3) ch by (simp add: soRead_def streamHas_def)
  have sh: "streamHas ?c1 chunks0 rest"
    using assms(3) ch by (simp add: streamHas_def)
  let ?b1 = "bufPush b d0"
  let ?m = "min (length_buf ?b1) r"
  have inv1: "length_buf ?b1 \<le> length (data ?b1)" using content_bufPush(2) [OF inv] .
  have binv1: "bufInv ?b1" using inv1 by (simp add: bufInv_def)
  have c1: "content ?b1 = d0" using content_bufPush(1) [OF inv, of d0] cb by simp
  have l1: "length_buf ?b1 = length d0" using content_bufPush(3) [OF inv, of d0] True by simp
  have m: "?m \<le> length_buf ?b1" by simp
  have rr: "read_reader (FromConnLength len r) c b =
          (Return (take ?m d0), FromConnLength len (r - ?m), ?c1, bufPop ?b1 ?m)"
    using True assms(2) sr d0 c1 by (simp add: consumeFromBuf_eq [OF binv1] Let_def)
  have pos: "0 < ?m" using l1 d0 assms(2) by (cases d0) auto
  have len: "length (take ?m d0) = ?m" using l1 by simp
  have c': "content (bufPop ?b1 ?m) = drop ?m d0"
    using content_bufPop(1) [OF inv1 m] c1 by simp
  have inv': "bufInv (bufPop ?b1 ?m)"
    using content_bufPop(2) [OF inv1 m] by (simp add: bufInv_def)
  have "content b @ concat chunks
          = take ?m d0 @ content (bufPop ?b1 ?m) @ concat chunks0"
    using c' cb ch by simp
  with rr len pos inv' sh show ?thesis
    by (intro exI [of _ "take ?m d0"] exI [of _ "FromConnLength len (r - ?m)"]
          exI [of _ ?c1] exI [of _ "bufPop ?b1 ?m"] exI [of _ chunks0]) auto
qed

lemma pulls_reach_end:
  "bufInv b \<Longrightarrow> streamHas c chunks rest \<Longrightarrow>
   r \<le> length (content b) + length (concat chunks) \<Longrightarrow>
     \<exists>k ds c' b' chunks'.
        pulls k (FromConnLength len r) c b = (Return ds, FromConnLength len 0, c', b')
        \<and> ds \<noteq> [] \<and> last ds = []
        \<and> concat ds = take r (content b @ concat chunks)
        \<and> streamHas c' chunks' rest
        \<and> content b' @ concat chunks' = drop r (content b @ concat chunks)"
proof (induction r arbitrary: b c chunks rule: less_induct)
  case (less r)
  show ?case
  proof (cases "r = 0")
    case True
    then have "pulls (Suc 0) (FromConnLength len r) c b
                 = (Return [[]], FromConnLength len 0, c, b)"
      by simp
    with True less.prems(2) show ?thesis
      by (intro exI [of _ "Suc 0"] exI [of _ "[[]]"] exI [of _ c] exI [of _ b]
            exI [of _ chunks]) simp
  next
    case False
    then have pos: "0 < r" by simp
    from read_reader_ok [OF less.prems(1) pos less.prems(2) less.prems(3), of len]
    obtain d rd1 c1 b1 chunks1 where s:
      "read_reader (FromConnLength len r) c b = (Return d, rd1, c1, b1)"
      "d \<noteq> []" "length d \<le> r" "rd1 = FromConnLength len (r - length d)"
      "bufInv b1" "streamHas c1 chunks1 rest"
      "content b @ concat chunks = d @ content b1 @ concat chunks1"
      by blast
    have lt: "r - length d < r" using s(2) pos by (cases d) auto
    have "length (content b @ concat chunks) = length (d @ content b1 @ concat chunks1)"
      using s(7) by simp
    then have enough: "r - length d \<le> length (content b1) + length (concat chunks1)"
      using less.prems(3) by simp
    from less.IH [OF lt s(5) s(6) enough]
    obtain k ds c' b' chunks' where p:
      "pulls k (FromConnLength len (r - length d)) c1 b1
         = (Return ds, FromConnLength len 0, c', b')" "ds \<noteq> []" "last ds = []"
      "concat ds = take (r - length d) (content b1 @ concat chunks1)"
      "streamHas c' chunks' rest"
      "content b' @ concat chunks' = drop (r - length d) (content b1 @ concat chunks1)"
      by blast
    have run: "pulls (Suc k) (FromConnLength len r) c b
            = (Return (d # ds), FromConnLength len 0, c', b')"
      using s(1) s(4) p(1) by simp
    have tk: "concat (d # ds) = take r (content b @ concat chunks)"
      using p(4) s(3) by (simp add: s(7))
    have dr: "content b' @ concat chunks' = drop r (content b @ concat chunks)"
      using p(6) s(3) by (simp add: s(7))
    from run p(2,3,5) tk dr show ?thesis
      by (intro exI [of _ "Suc k"] exI [of _ "d # ds"] exI [of _ c'] exI [of _ b']
            exI [of _ chunks']) simp
  qed
qed

section \<open>Properties of the connection driver\<close>

lemma bufPush_Nil: "bufPush b [] = b"
  by (simp add: bufPush_def copy_def)

lemma serveLoop_eof:
  assumes "fst (cutMessage X (w_buf w)) = Inr None"
      and "soRead (w_conn w) = (Return [], c)"
  shows "serveLoop X w =
           Some (if length_buf (w_buf w) = 0 then Return ()
                 else Throw (HTTPError 400 ''Unexpected EOF''),
                 w\<lparr>w_conn := c\<rparr>)"
  using cutMessage_null [OF assms(1)] assms(2)
  by (subst serveLoop.simps) (simp add: bufPush_Nil)

lemma serveLoop_more:
  assumes "fst (cutMessage X (w_buf w)) = Inr None"
      and "soRead (w_conn w) = (Return d, c)" and "d \<noteq> []"
  shows "serveLoop X w = serveLoop X (w\<lparr>w_conn := c, w_buf := bufPush (w_buf w) d\<rparr>)"
  using cutMessage_null [OF assms(1)] assms(2,3)
  by (subst serveLoop.simps) simp

text \<open>A client sends the single byte \<open>x\<close> and closes: \<open>serveClient\<close> throws
  \<open>HTTPError(400, 'Unexpected EOF')\<close>.\<close>

lemma serveClient_truncated:
  "serveClient X
     (soInit \<lparr>incoming = [Data ''x'', End], written = [], writeErr = None, destroyed = False\<rparr>)
   = Some (Throw (HTTPError 400 ''Unexpected EOF''),
       \<lparr>w_conn = \<lparr>socket = \<lparr>incoming = [], written = [], writeErr = None,
                             destroyed = False\<rparr>,
                   err = None, ended = True\<rparr>,
         w_buf = bufPush emptyBuf ''x'', w_heap = []\<rparr>)"
proof -
  let ?s0 = "\<lparr>incoming = [Data ''x'', End], written = [], writeErr = None,
              destroyed = False\<rparr>"
  let ?w0 = "\<lparr>w_conn = soInit ?s0, w_buf = emptyBuf, w_heap = []\<rparr>"
  let ?c1 = "\<lparr>socket = ?s0\<lparr>incoming := [End]\<rparr>, err = None, ended = False\<rparr>"
  let ?w1 = "\<lparr>w_conn = ?c1, w_buf = bufPush emptyBuf ''x'', w_heap = []\<rparr>"
  let ?c2 = "\<lparr>socket = ?s0\<lparr>incoming := []\<rparr>, err = None, ended = True\<rparr>"
  have "serveLoop X ?w0 = serveLoop X ?w1"
    using serveLoop_more [of X ?w0 "''x''" ?c1]
    by (simp add: cutMessage_emptyBuf soRead_def soInit_def)
  also have "\<dots> = Some (Throw (HTTPError 400 ''Unexpected EOF''),
      \<lparr>w_conn = ?c2, w_buf = bufPush emptyBuf ''x'', w_heap = []\<rparr>)"
    using serveLoop_eof [of X ?w1 ?c2]
    by (simp add: cutMessage_one_byte length_buf_one_byte soRead_def)
  finally show ?thesis by (simp add: serveClient_def)
qed

lemma writeHTTPResp_nonzero_length:
  "length_body (w_heap w ! body resp) \<noteq> 0 \<Longrightarrow>
     writeHTTPResp X resp w = Some (Throw (Error ''TODO: chunked encoding''), w)"
  by (simp add: writeHTTPResp_def)

section \<open>Properties of the reader selection\<close>

text \<open>
  The selection after the two lookups, for a method without a body: the test is
  \<open>bodyLen > 0 || chunked\<close>, so a \<open>Content-Length\<close> value that parses to 0 is let
  through, and a value that does not parse is refused before the test is reached.
\<close>

lemma readerFromFields_no_body:
  assumes "m = ''GET'' \<or> m = ''HEAD''"
  shows "readerFromFields X m contentLen te =
     (case contentLen of
        None \<Rightarrow> if te = Some ''chunked'' then Inl (HTTPError 400 ''HTTP body not allowed'')
                else Inr (FromConnLength 0 0)
      | Some v \<Rightarrow>
          (case parseDec X v of
             None \<Rightarrow> Inl (HTTPError 400 ''bad Content-Length'')
           | Some n \<Rightarrow> if 0 < n \<or> te = Some ''chunked''
                       then Inl (HTTPError 400 ''HTTP body not allowed'')
                       else Inr (FromConnLength 0 0)))"
  using assms
  by (auto simp: readerFromFields_def readerFromConnLength_def Let_def split: option.splits)

lemma readerFromReq_GET_HEAD:
  "method_req req = ''GET'' \<or> method_req req = ''HEAD'' \<Longrightarrow>
     readerFromReq X req = Inr (FromConnLength 0 0)"
  by (simp add: readerFromReq_def fieldGet_def readerFromFields_no_body)

section \<open>Properties of the line protocol\<close>

lemma cutMessage_line_length: "length_line (snd (cutMessage_line buf)) = length_line buf"
  by (simp add: cutMessage_line_def Let_def)

section \<open>Claims\<close>

text \<open>
  C1 (what the code does): \<open>fieldGet\<close> answers \<open>null\<close> for every header list and every
  key. Given the header list \<open>["Content-Length: 5"]\<close> and the key \<open>Content-Length\<close>,
  which that field matches, it does not return the field.
\<close>

theorem fieldGet_returns_null:
  "fieldGet [''Content-Length: 5''] ''Content-Length'' = None
   \<and> (\<forall>hs k. fieldGet hs k = None)"
  by (simp add: fieldGet_def)

text \<open>
  C2 (what the code does): a response whose body is the in-memory reader of the two
  bytes \<open>hi\<close> (known length 2) makes \<open>writeHTTPResp\<close> throw
  \<open>Error('TODO: chunked encoding')\<close> with nothing written. With the empty in-memory
  body (known length 0) it returns, and the header block it wrote was encoded from a
  response whose added field is the text \<open>Content-Length: ${resp.body.length}\<close>, not
  \<open>Content-Length: 0\<close>.
\<close>

theorem writeHTTPResp_known_length:
  "writeHTTPResp X \<lparr>code = Num 200, headers_res = [], body = 0\<rparr>
      \<lparr>w_conn = soInit \<lparr>incoming = [], written = [], writeErr = None, destroyed = False\<rparr>,
        w_buf = emptyBuf, w_heap = [readerFromMemory ''hi'']\<rparr>
   = Some (Throw (Error ''TODO: chunked encoding''),
      \<lparr>w_conn = soInit \<lparr>incoming = [], written = [], writeErr = None, destroyed = False\<rparr>,
        w_buf = emptyBuf, w_heap = [readerFromMemory ''hi'']\<rparr>)
  \<and> writeHTTPResp X \<lparr>code = Num 200, headers_res = [], body = 0\<rparr>
      \<lparr>w_conn = soInit \<lparr>incoming = [], written = [], writeErr = None, destroyed = False\<rparr>,
        w_buf = emptyBuf, w_heap = [readerFromMemory []]\<rparr>
   = Some (Return (),
      \<lparr>w_conn = soInit \<lparr>incoming = [],
           written = [encodeHTTPResp X \<lparr>code = Num 200,
                        headers_res = [''Content-Length: ${resp.body.length}''], body = 0\<rparr>],
           writeErr = None, destroyed = False\<rparr>,
        w_buf = emptyBuf, w_heap = [FromMemory 0 [] True]\<rparr>)"
proof
  show "writeHTTPResp X \<lparr>code = Num 200, headers_res = [], body = 0\<rparr>
      \<lparr>w_conn = soInit \<lparr>incoming = [], written = [], writeErr = None, destroyed = False\<rparr>,
        w_buf = emptyBuf, w_heap = [readerFromMemory ''hi'']\<rparr>
   = Some (Throw (Error ''TODO: chunked encoding''),
      \<lparr>w_conn = soInit \<lparr>incoming = [], written = [], writeErr = None, destroyed = False\<rparr>,
        w_buf = emptyBuf, w_heap = [readerFromMemory ''hi'']\<rparr>)"
    by (simp add: writeHTTPResp_def readerFromMemory_def)
  show "writeHTTPResp X \<lparr>code = Num 200, headers_res = [], body = 0\<rparr>
      \<lparr>w_conn = soInit \<lparr>incoming = [], written = [], writeErr = None, destroyed = False\<rparr>,
        w_buf = emptyBuf, w_heap = [readerFromMemory []]\<rparr>
   = Some (Return (),
      \<lparr>w_conn = soInit \<lparr>incoming = [],
           written = [encodeHTTPResp X \<lparr>code = Num 200,
                        headers_res = [''Content-Length: ${resp.body.length}''], body = 0\<rparr>],
           writeErr = None, destroyed = False\<rparr>,
        w_buf = emptyBuf, w_heap = [FromMemory 0 [] True]\<rparr>)"
    apply (simp add: writeHTTPResp_def readerFromMemory_def soWrite_def soInit_def)
    apply (subst writeBody.simps)
    apply (simp add: read_body_def)
    done
qed

text \<open>
  C3 (what the code does): the line buffer after \<open>bufPush\<close> of \<open>"PING\n"\<close> into the empty
  buffer holds those 5 bytes in a backing array of 32. \<open>cutMessage\<close> of server.ts
  returns \<open>"PING\n"\<close>, sets \<open>start\<close> to 5 and leaves \<open>length\<close> at 5; called again on the
  buffer it left, it returns \<open>"PING\n"\<close> once more. When the backing array is exactly
  the 5 bytes, the array is cut to nothing and \<open>length\<close> is still 5. On no buffer does
  \<open>cutMessage\<close> change \<open>length\<close>.
\<close>

theorem cutMessage_line_PING_keeps_length:
  "cutMessage_line (bufPush_line emptyBuf_line (''PING'' @ [LF]))
     = (Some (''PING'' @ [LF]),
        \<lparr>data_line = ''PING'' @ [LF] @ alloc 27, length_line = 5, start_line = 5\<rparr>)
   \<and> cutMessage_line
        \<lparr>data_line = ''PING'' @ [LF] @ alloc 27, length_line = 5, start_line = 5\<rparr>
     = (Some (''PING'' @ [LF]),
        \<lparr>data_line = ''PING'' @ [LF] @ alloc 27, length_line = 5, start_line = 5\<rparr>)
   \<and> cutMessage_line \<lparr>data_line = ''PING'' @ [LF], length_line = 5, start_line = 0\<rparr>
     = (Some (''PING'' @ [LF]), \<lparr>data_line = [], length_line = 5, start_line = 0\<rparr>)
   \<and> (\<forall>buf. length_line (snd (cutMessage_line buf)) = length_line buf)"
proof (intro conjI allI)
  show "cutMessage_line (bufPush_line emptyBuf_line (''PING'' @ [LF]))
     = (Some (''PING'' @ [LF]),
        \<lparr>data_line = ''PING'' @ [LF] @ alloc 27, length_line = 5, start_line = 5\<rparr>)"
    by code_simp
  show "cutMessage_line
        \<lparr>data_line = ''PING'' @ [LF] @ alloc 27, length_line = 5, start_line = 5\<rparr>
     = (Some (''PING'' @ [LF]),
        \<lparr>data_line = ''PING'' @ [LF] @ alloc 27, length_line = 5, start_line = 5\<rparr>)"
    by code_simp
  show "cutMessage_line \<lparr>data_line = ''PING'' @ [LF], length_line = 5, start_line = 0\<rparr>
     = (Some (''PING'' @ [LF]), \<lparr>data_line = [], length_line = 5, start_line = 0\<rparr>)"
    by code_simp
  show "length_line (snd (cutMessage_line buf)) = length_line buf" for buf
    by (rule cutMessage_line_length)
qed

text \<open>
  C4 (what the code does): the response \<open>newConn\<close> builds for a caught \<open>HTTPError\<close>,
  whatever its status, has the code \<open>exc.code\<close>, which is \<open>undefined\<close>: the class stores
  the status in \<open>statusCode\<close>. For a client that sends the byte \<open>x\<close> and closes,
  \<open>serveClient\<close> throws \<open>HTTPError(400, 'Unexpected EOF')\<close> and \<open>newConn\<close> ends with the
  socket destroyed and nothing written to it: the write of the error response throws
  on the non-empty body and is swallowed.
\<close>

theorem newConn_error_response:
  "code (errorResp (HTTPError statusCode msg) r) = Undefined
   \<and> newConn X \<lparr>incoming = [Data ''x'', End], written = [], writeErr = None,
                  destroyed = False\<rparr> =
       Some (Return (),
         \<lparr>w_conn = \<lparr>socket = \<lparr>incoming = [], written = [], writeErr = None,
                               destroyed = True\<rparr>,
                     err = None, ended = True\<rparr>,
           w_buf = bufPush emptyBuf ''x'',
           w_heap = [readerFromMemory (''Unexpected EOF'' @ [LF])]\<rparr>)"
  by (simp add: errorResp_def newConn_def serveClient_truncated newReader_def
        writeHTTPResp_def readerFromMemory_def destroy_def)

text \<open>
  C5: when the unread bytes hold no \<open>\r\n\r\n\<close>, \<open>cutMessage\<close> of httpServer.ts throws
  \<open>HTTPError(413, 'header is too large')\<close> if \<open>buf.length\<close> is 8192 or more and returns
  \<open>null\<close> if it is less; the buffer is left as it was. It is applied below to a
  buffer of 8192 bytes \<open>a\<close> (413) and to one of 8191 (null).
\<close>

theorem cutMessage_header_limit:
  "\<not> hasTerminator (content b) \<Longrightarrow>
     cutMessage X b =
       (if 8192 \<le> length_buf b then (Inl (HTTPError 413 ''header is too large''), b)
        else (Inr None, b))"
  by (simp add: cutMessage_def content_def indexOf_def indexOfFrom_terminator kMaxHeaderLen_def)

theorem cutMessage_header_limit_witness:
  "\<forall>X. \<not> hasTerminator (content \<lparr>data = replicate 8192 (CHR ''a''), length_buf = 8192\<rparr>)
     \<and> cutMessage X \<lparr>data = replicate 8192 (CHR ''a''), length_buf = 8192\<rparr>
         = (Inl (HTTPError 413 ''header is too large''),
            \<lparr>data = replicate 8192 (CHR ''a''), length_buf = 8192\<rparr>)
     \<and> \<not> hasTerminator (content \<lparr>data = replicate 8191 (CHR ''a''), length_buf = 8191\<rparr>)
     \<and> cutMessage X \<lparr>data = replicate 8191 (CHR ''a''), length_buf = 8191\<rparr>
         = (Inr None, \<lparr>data = replicate 8191 (CHR ''a''), length_buf = 8191\<rparr>)"
proof (intro allI conjI)
  fix X
  have no: "\<not> hasTerminator (replicate n (CHR ''a''))" for n
    using hasTerminator_CR [of "replicate n (CHR ''a'')"] by (auto simp: CR_def)
  show h1: "\<not> hasTerminator (content \<lparr>data = replicate 8192 (CHR ''a''), length_buf = 8192\<rparr>)"
    by (simp add: content_def subarray_def no)
  show h2: "\<not> hasTerminator (content \<lparr>data = replicate 8191 (CHR ''a''), length_buf = 8191\<rparr>)"
    by (simp add: content_def subarray_def no)
  show "cutMessage X \<lparr>data = replicate 8192 (CHR ''a''), length_buf = 8192\<rparr>
         = (Inl (HTTPError 413 ''header is too large''),
            \<lparr>data = replicate 8192 (CHR ''a''), length_buf = 8192\<rparr>)"
    using cutMessage_header_limit [OF h1, of X] by simp
  show "cutMessage X \<lparr>data = replicate 8191 (CHR ''a''), length_buf = 8191\<rparr>
         = (Inr None, \<lparr>data = replicate 8191 (CHR ''a''), length_buf = 8191\<rparr>)"
    using cutMessage_header_limit [OF h2, of X] by simp
qed

text \<open>
  C6: in the loop of \<open>serveClient\<close>, when \<open>cutMessage\<close> found no message and the read
  that follows returns a zero-length chunk, the loop ends at once: \<open>serveClient\<close>
  returns if the buffer is empty and throws \<open>HTTPError(400, 'Unexpected EOF')\<close> if it
  is not. The connection is left as that read left it (no further read), the buffer
  as it was.
\<close>

theorem serveClient_end_of_stream:
  assumes "fst (cutMessage X (w_buf w)) = Inr None"
      and "soRead (w_conn w) = (Return [], c)"
  shows "serveLoop X w =
           Some (if length_buf (w_buf w) = 0 then Return ()
                 else Throw (HTTPError 400 ''Unexpected EOF''),
                 w\<lparr>w_conn := c\<rparr>)"
  using assms by (rule serveLoop_eof)

theorem serveClient_end_of_stream_witness:
  "\<forall>X. fst (cutMessage X emptyBuf) = Inr None
     \<and> soRead (soInit \<lparr>incoming = [End], written = [], writeErr = None, destroyed = False\<rparr>)
         = (Return [], \<lparr>socket = \<lparr>incoming = [], written = [], writeErr = None,
                                   destroyed = False\<rparr>,
                         err = None, ended = True\<rparr>)
     \<and> serveLoop X \<lparr>w_conn = soInit \<lparr>incoming = [End], written = [], writeErr = None,
                                       destroyed = False\<rparr>,
                      w_buf = emptyBuf, w_heap = []\<rparr>
         = Some (Return (),
             \<lparr>w_conn = \<lparr>socket = \<lparr>incoming = [], written = [], writeErr = None,
                                   destroyed = False\<rparr>,
                         err = None, ended = True\<rparr>,
               w_buf = emptyBuf, w_heap = []\<rparr>)
     \<and> fst (cutMessage X (bufPush emptyBuf ''x'')) = Inr None
     \<and> serveLoop X \<lparr>w_conn = soInit \<lparr>incoming = [End], written = [], writeErr = None,
                                       destroyed = False\<rparr>,
                      w_buf = bufPush emptyBuf ''x'', w_heap = []\<rparr>
         = Some (Throw (HTTPError 400 ''Unexpected EOF''),
             \<lparr>w_conn = \<lparr>socket = \<lparr>incoming = [], written = [], writeErr = None,
                                   destroyed = False\<rparr>,
                         err = None, ended = True\<rparr>,
               w_buf = bufPush emptyBuf ''x'', w_heap = []\<rparr>)"
proof (intro allI conjI)
  fix X
  let ?s = "\<lparr>incoming = [End], written = [], writeErr = None, destroyed = False\<rparr>"
  let ?c = "\<lparr>socket = \<lparr>incoming = [], written = [], writeErr = None, destroyed = False\<rparr>,
             err = None, ended = True\<rparr>"
  show h1: "fst (cutMessage X emptyBuf) = Inr None"
    by (simp add: cutMessage_emptyBuf)
  show h2: "soRead (soInit ?s) = (Return [], ?c)"
    by (simp add: soRead_def soInit_def)
  show h3: "fst (cutMessage X (bufPush emptyBuf ''x'')) = Inr None"
    by (simp add: cutMessage_one_byte)
  show "serveLoop X \<lparr>w_conn = soInit ?s, w_buf = emptyBuf, w_heap = []\<rparr>
          = Some (Return (), \<lparr>w_conn = ?c, w_buf = emptyBuf, w_heap = []\<rparr>)"
    using serveClient_end_of_stream
            [of X "\<lparr>w_conn = soInit ?s, w_buf = emptyBuf, w_heap = []\<rparr>" ?c] h1 h2
    by (simp add: emptyBuf_def)
  show "serveLoop X \<lparr>w_conn = soInit ?s, w_buf = bufPush emptyBuf ''x'', w_heap = []\<rparr>
          = Some (Throw (HTTPError 400 ''Unexpected EOF''),
              \<lparr>w_conn = ?c, w_buf = bufPush emptyBuf ''x'', w_heap = []\<rparr>)"
    using serveClient_end_of_stream
            [of X "\<lparr>w_conn = soInit ?s, w_buf = bufPush emptyBuf ''x'', w_heap = []\<rparr>" ?c]
          h3 h2
    by (simp add: length_buf_one_byte)
qed

text \<open>
  C7: take the reader \<open>readerFromConnLength(conn, buf, n)\<close> on a buffer within its
  backing array. First, whenever \<open>k\<close> successive pulls all resolve, with chunks \<open>ds\<close>:
  the chunks hold at most \<open>n\<close> bytes in all; the unread bytes of the buffer followed by
  the data chunks the pulls took from the socket are the bytes returned followed by
  what is unread in the buffer afterwards (nothing is lost or reordered, and what was
  not returned is still in the buffer); if the last pull returned an empty chunk the
  chunks hold exactly \<open>n\<close> bytes; and once \<open>n\<close> bytes are returned every further pull
  returns an empty chunk and leaves reader, connection and buffer as they are. Second,
  when the connection is readable and buffer and coming data chunks hold at least \<open>n\<close>
  bytes, some number of pulls does resolve and ends with an empty chunk: the bytes
  returned are the first \<open>n\<close> of buffer and stream, and the bytes after them are what
  the buffer and the socket still hold.
\<close>

theorem readerFromConnLength_boundary:
  assumes "bufInv b"
  shows "(pulls k (readerFromConnLength n) c b = (Return ds, rd', c', b') \<longrightarrow>
            length (concat ds) \<le> n
            \<and> (\<exists>got. incoming (socket c) = map Data got @ incoming (socket c')
                       \<and> content b @ concat got = concat ds @ content b')
            \<and> (ds \<noteq> [] \<and> last ds = [] \<longrightarrow> length (concat ds) = n)
            \<and> (length (concat ds) = n \<longrightarrow>
                 (\<forall>j. pulls j rd' c' b' = (Return (replicate j []), rd', c', b'))))
       \<and> (streamHas c chunks rest \<and> n \<le> length (content b) + length (concat chunks) \<longrightarrow>
            (\<exists>k ds rd' c' b' chunks'.
                pulls k (readerFromConnLength n) c b = (Return ds, rd', c', b')
                \<and> last ds = [] \<and> concat ds = take n (content b @ concat chunks)
                \<and> streamHas c' chunks' rest
                \<and> content b' @ concat chunks' = drop n (content b @ concat chunks)))"
proof (intro conjI impI)
  assume run: "pulls k (readerFromConnLength n) c b = (Return ds, rd', c', b')"
  from pulls_ConnLength [OF assms run [unfolded readerFromConnLength_def]]
  obtain got where s: "rd' = FromConnLength (int n) (n - length (concat ds))"
      "length (concat ds) \<le> n"
      "incoming (socket c) = map Data got @ incoming (socket c')"
      "content b @ concat got = concat ds @ content b'"
      "ds \<noteq> [] \<and> last ds = [] \<longrightarrow> length (concat ds) = n"
    by blast
  show "length (concat ds) \<le> n" by (rule s(2))
  show "\<exists>got. incoming (socket c) = map Data got @ incoming (socket c')
              \<and> content b @ concat got = concat ds @ content b'"
    using s(3,4) by blast
  show "length (concat ds) = n" if "ds \<noteq> [] \<and> last ds = []"
    using s(5) that by blast
  show "\<forall>j. pulls j rd' c' b' = (Return (replicate j []), rd', c', b')"
    if "length (concat ds) = n"
    using s(1) that by (simp add: pulls_exhausted)
next
  assume "streamHas c chunks rest \<and> n \<le> length (content b) + length (concat chunks)"
  then have sh: "streamHas c chunks rest"
    and en: "n \<le> length (content b) + length (concat chunks)" by simp_all
  from pulls_reach_end [OF assms sh en, of "int n"]
  show "\<exists>k ds rd' c' b' chunks'.
          pulls k (readerFromConnLength n) c b = (Return ds, rd', c', b')
          \<and> last ds = [] \<and> concat ds = take n (content b @ concat chunks)
          \<and> streamHas c' chunks' rest
          \<and> content b' @ concat chunks' = drop n (content b @ concat chunks)"
    unfolding readerFromConnLength_def by blast
qed

theorem readerFromConnLength_boundary_witness:
  "bufInv \<lparr>data = ''ab'', length_buf = 2\<rparr>
   \<and> pulls 3 (readerFromConnLength 3)
        (soInit \<lparr>incoming = [Data ''cdef''], written = [], writeErr = None,
                 destroyed = False\<rparr>)
        \<lparr>data = ''ab'', length_buf = 2\<rparr>
       = (Return [''ab'', ''c'', []], FromConnLength 3 0,
          soInit \<lparr>incoming = [], written = [], writeErr = None, destroyed = False\<rparr>,
          \<lparr>data = ''deff'' @ alloc 28, length_buf = 3\<rparr>)
   \<and> length (concat [''ab'', ''c'', []]) = 3
   \<and> content \<lparr>data = ''deff'' @ alloc 28, length_buf = 3\<rparr> = ''def''
   \<and> (\<forall>j. pulls j (FromConnLength 3 0)
              (soInit \<lparr>incoming = [], written = [], writeErr = None, destroyed = False\<rparr>)
              \<lparr>data = ''deff'' @ alloc 28, length_buf = 3\<rparr>
            = (Return (replicate j []), FromConnLength 3 0,
               soInit \<lparr>incoming = [], written = [], writeErr = None, destroyed = False\<rparr>,
               \<lparr>data = ''deff'' @ alloc 28, length_buf = 3\<rparr>))
   \<and> streamHas
        (soInit \<lparr>incoming = [Data ''cdef''], written = [], writeErr = None,
                 destroyed = False\<rparr>) [''cdef''] []
   \<and> (\<exists>k ds rd' c' b' chunks'.
         pulls k (readerFromConnLength 3)
           (soInit \<lparr>incoming = [Data ''cdef''], written = [], writeErr = None,
                    destroyed = False\<rparr>)
           \<lparr>data = ''ab'', length_buf = 2\<rparr>
           = (Return ds, rd', c', b')
         \<and> last ds = [] \<and> concat ds = ''abc''
         \<and> streamHas c' chunks' [] \<and> content b' @ concat chunks' = ''def'')"
proof -
  let ?c0 = "soInit \<lparr>incoming = [Data ''cdef''], written = [], writeErr = None,
                     destroyed = False\<rparr>"
  let ?b0 = "\<lparr>data = ''ab'', length_buf = 2\<rparr>"
  let ?c1 = "soInit \<lparr>incoming = [], written = [], writeErr = None, destroyed = False\<rparr>"
  let ?b1 = "\<lparr>data = ''deff'' @ alloc 28, length_buf = 3\<rparr>"
  have inv: "bufInv ?b0" by (simp add: bufInv_def)
  have run: "pulls 3 (readerFromConnLength 3) ?c0 ?b0
               = (Return [''ab'', ''c'', []], FromConnLength 3 0, ?c1, ?b1)"
    by code_simp
  have len: "length (concat [''ab'', ''c'', []]) = 3" by simp
  have cont: "content ?b1 = ''def''" by (simp add: content_def subarray_def)
  have cont0: "content ?b0 = ''ab''" by (simp add: content_def subarray_def)
  have sh: "streamHas ?c0 [''cdef''] []" by (simp add: streamHas_def soInit_def)
  note inst = readerFromConnLength_boundary
               [OF inv, of 3 3 ?c0 "[''ab'', ''c'', []]" "FromConnLength 3 0" ?c1 ?b1
                  "[''cdef'']" "[]"]
  from inst run len have after:
    "\<forall>j. pulls j (FromConnLength 3 0) ?c1 ?b1
           = (Return (replicate j []), FromConnLength 3 0, ?c1, ?b1)"
    by simp
  from inst sh cont0 have ex:
    "\<exists>k ds rd' c' b' chunks'.
         pulls k (readerFromConnLength 3) ?c0 ?b0 = (Return ds, rd', c', b')
         \<and> last ds = [] \<and> concat ds = ''abc''
         \<and> streamHas c' chunks' [] \<and> content b' @ concat chunks' = ''def''"
    by simp
  from inv run len cont after sh ex show ?thesis by blast
qed

text \<open>
  C8: run any sequence of \<open>bufPush\<close> and \<open>bufPop\<close> calls on the empty buffer a connection
  starts with, each \<open>bufPop\<close> asking for no more bytes than are unread at that point.
  Then the unread content is what appending and dropping on a plain byte string give
  (an append puts the new bytes after the old ones, a consume of \<open>n\<close> removes the first
  \<open>n\<close>), and the backing array is at least as long as the logical length. The theorem
  states this for every prefix \<open>ops\<close> of the sequence, that is, after each operation.
\<close>

theorem bufPush_bufPop_preserve_content:
  assumes "popsWithin [] (ops @ rest)"
  shows "content (runOps emptyBuf ops) = specOps [] ops \<and> bufInv (runOps emptyBuf ops)"
proof -
  have pre: "popsWithin c (xs @ ys) \<Longrightarrow> popsWithin c xs" for c xs ys
  proof (induction xs arbitrary: c)
    case Nil
    then show ?case by simp
  next
    case (Cons x xs)
    then show ?case by (cases x) auto
  qed
  have c0: "content emptyBuf = []"
    by (simp add: emptyBuf_def content_def subarray_def)
  have "popsWithin (content emptyBuf) ops"
    using pre [OF assms] by (simp add: c0)
  moreover have "length_buf emptyBuf \<le> length (data emptyBuf)"
    by (simp add: emptyBuf_def)
  ultimately show ?thesis
    using runOps_spec [of emptyBuf ops] by (simp add: c0 bufInv_def)
qed

theorem bufPush_bufPop_preserve_content_witness:
  "popsWithin [] ([Push ''ab'', Pop 1, Push ''c''] @ [])
   \<and> content (runOps emptyBuf [Push ''ab'', Pop 1, Push ''c'']) = ''bc''
   \<and> bufInv (runOps emptyBuf [Push ''ab'', Pop 1, Push ''c''])"
  using bufPush_bufPop_preserve_content [of "[Push ''ab'', Pop 1, Push ''c'']" "[]"]
  by simp

text \<open>
  C9 (what the code does): a \<open>GET\<close> request that carries the header field
  \<open>Content-Length: 5\<close>, and one that carries \<open>Transfer-Encoding: chunked\<close>, each get
  the known-length reader of declared length 0 from \<open>readerFromReq\<close>, and no error is
  thrown: \<open>fieldGet\<close> finds neither field, so the test \<open>bodyLen > 0 || chunked\<close> never
  holds. The same is the result for every \<open>GET\<close> and every \<open>HEAD\<close> request, whatever its
  target, version and header fields.
\<close>

theorem readerFromReq_no_body_no_error:
  "readerFromReq X \<lparr>method_req = ''GET'', uri = ''/'', version = ''1.1'',
                      headers = [''Content-Length: 5'']\<rparr>
     = Inr (FromConnLength 0 0)
   \<and> readerFromReq X \<lparr>method_req = ''GET'', uri = ''/'', version = ''1.1'',
                        headers = [''Transfer-Encoding: chunked'']\<rparr>
     = Inr (FromConnLength 0 0)
   \<and> readerFromReq X \<lparr>method_req = ''GET'', uri = u, version = v, headers = hs\<rparr>
     = Inr (FromConnLength 0 0)
   \<and> readerFromReq X \<lparr>method_req = ''HEAD'', uri = u, version = v, headers = hs\<rparr>
     = Inr (FromConnLength 0 0)"
  by (simp add: readerFromReq_GET_HEAD)

text \<open>
  C10: the reader \<open>readerFromMemory(d)\<close> declares the length of \<open>d\<close>; of \<open>k + 1\<close> successive
  pulls the first returns \<open>d\<close> whole and each of the \<open>k\<close> others an empty chunk, and
  the connection and its buffer are left as they were.
\<close>

theorem readerFromMemory_pulls:
  "length_body (readerFromMemory d) = int (length d)
   \<and> pulls (Suc k) (readerFromMemory d) c b
       = (Return (d # replicate k []), FromMemory (int (length d)) d True, c, b)"
  by (simp add: readerFromMemory_def pulls_memory_done)

end
